theory Spec2Isabelle
  imports
    Main
    "HOL-Library.Sublist"
    "HOL-Library.Char_ord"
    "HOL-Library.List_Lexorder"
    "HOL-Library.Product_Lexorder"
begin

chapter \<open>The programs\<close>

section \<open>JSON documents\<close>

text \<open>
  Both scripts exchange data through JSON files read with \<open>json.load\<close> and written with
  \<open>json.dump\<close>. A parsed document is a value of the following type. An object is the
  list of its members in insertion order, as a Python \<open>dict\<close> keeps them; a float is
  carried as the text Python prints for it, which is all the scripts ever do with one.
\<close>

datatype json =
    JNull
  | JBool bool
  | JInt int
  | JFloat string
  | JStr string
  | JArr "json list"
  | JObj "(string \<times> json) list"

text \<open>
  The exceptions the scripts distinguish in their \<open>except\<close> clauses. Every other
  exception class is \<open>OtherException\<close>; all of them derive from \<open>Exception\<close>.
\<close>

datatype py_exception = FileNotFoundError | JSONDecodeError | TypeError | OtherException

text \<open>
  What \<open>open(filename, 'r')\<close> followed by \<open>json.load\<close> does: it raises, or it returns
  the parsed document.
\<close>

datatype load_result = LoadRaises py_exception | Loaded json

text \<open>\<open>for entry in data\<close>: lists give their elements, objects their keys, strings
  their characters; iterating any other JSON value raises \<open>TypeError\<close>.\<close>

fun py_iter :: "json \<Rightarrow> py_exception + json list" where
  "py_iter (JArr xs) = Inr xs"
| "py_iter (JObj kvs) = Inr (map (\<lambda>kv. JStr (fst kv)) kvs)"
| "py_iter (JStr s) = Inr (map (\<lambda>c. JStr [c]) s)"
| "py_iter v = Inl TypeError"

fun dec_nat :: "nat \<Rightarrow> string" where
  "dec_nat n =
     (if n < 10 then [''0123456789'' ! n]
      else dec_nat (n div 10) @ [''0123456789'' ! (n mod 10)])"

definition int_repr :: "int \<Rightarrow> string" where
  "int_repr i = (if i < 0 then CHR ''-'' # dec_nat (nat (- i)) else dec_nat (nat i))"

text \<open>
  \<open>str(v)\<close> for a value that came out of \<open>json.load\<close>. The text Python prints for a list
  or a dict is not modelled: it is the parameter \<open>py_repr\<close>.
\<close>

fun py_str :: "(json \<Rightarrow> string) \<Rightarrow> json \<Rightarrow> string" where
  "py_str py_repr (JStr s) = s"
| "py_str py_repr (JInt i) = int_repr i"
| "py_str py_repr (JFloat r) = r"
| "py_str py_repr (JBool b) = (if b then ''True'' else ''False'')"
| "py_str py_repr JNull = ''None''"
| "py_str py_repr v = py_repr v"

text \<open>\<open>needle in haystack\<close> on strings: the needle occurs as a contiguous substring.\<close>

fun py_in :: "string \<Rightarrow> string \<Rightarrow> bool" where
  "py_in needle [] = (needle = [])"
| "py_in needle (c # cs) = (prefix needle (c # cs) \<or> py_in needle cs)"

subsection \<open>\<open>json.dump(obj, f, indent=2, ensure_ascii=False)\<close>\<close>

text \<open>
  The text the standard encoder produces with these options: members and elements one per
  line, indented by two spaces per nesting level, \<open>,\<close> between items and \<open>: \<close> after
  a key; an empty list is \<open>[]\<close> and an empty object \<open>{}\<close>. In a string only the
  backslash, the double quote and the control characters below \<open>0x20\<close> are escaped.
\<close>

definition hex_digit :: "nat \<Rightarrow> char" where
  "hex_digit d = ''0123456789abcdef'' ! d"

definition escape_char :: "char \<Rightarrow> string" where
  "escape_char c =
     (if c = CHR 0x5C then [CHR 0x5C, CHR 0x5C]
      else if c = CHR 0x22 then [CHR 0x5C, CHR 0x22]
      else if c = CHR 0x08 then [CHR 0x5C, CHR ''b'']
      else if c = CHR 0x0C then [CHR 0x5C, CHR ''f'']
      else if c = CHR 0x0A then [CHR 0x5C, CHR ''n'']
      else if c = CHR 0x0D then [CHR 0x5C, CHR ''r'']
      else if c = CHR 0x09 then [CHR 0x5C, CHR ''t'']
      else if (of_char c :: nat) < 0x20
        then [CHR 0x5C, CHR ''u'', CHR ''0'', CHR ''0'',
              hex_digit (of_char c div 16), hex_digit (of_char c mod 16)]
      else [c])"

definition encode_basestring :: "string \<Rightarrow> string" where
  "encode_basestring s = CHR 0x22 # concat (map escape_char s) @ [CHR 0x22]"

fun join :: "string \<Rightarrow> string list \<Rightarrow> string" where
  "join sep [] = []"
| "join sep [x] = x"
| "join sep (x # y # ys) = x @ sep @ join sep (y # ys)"

definition newline_indent :: "nat \<Rightarrow> string" where
  "newline_indent level = CHR 0x0A # replicate (2 * level) CHR '' ''"

fun iterencode :: "nat \<Rightarrow> json \<Rightarrow> string" where
  "iterencode level JNull = ''null''"
| "iterencode level (JBool b) = (if b then ''true'' else ''false'')"
| "iterencode level (JInt i) = int_repr i"
| "iterencode level (JFloat r) = r"
| "iterencode level (JStr s) = encode_basestring s"
| "iterencode level (JArr xs) =
     (if xs = [] then ''[]''
      else ''['' @ newline_indent (Suc level)
           @ join (CHR '','' # newline_indent (Suc level)) (map (iterencode (Suc level)) xs)
           @ newline_indent level @ '']'')"
| "iterencode level (JObj kvs) =
     (if kvs = [] then ''{}''
      else ''{'' @ newline_indent (Suc level)
           @ join (CHR '','' # newline_indent (Suc level))
               (map (\<lambda>kv. encode_basestring (fst kv) @ '': ''
                            @ iterencode (Suc level) (snd kv)) kvs)
           @ newline_indent level @ ''}'')"

definition json_dump :: "json \<Rightarrow> string" where
  "json_dump obj = iterencode 0 obj"

section \<open>connectionLogsGrabber.py\<close>

subsection \<open>What a browser instance shows\<close>

text \<open>
  The script drives Selenium. What the driver answers is outside the program, so it is
  input to the model. A captured request carries its method, its URL and, when the server
  answered, the response: its status, its \<open>Content-Type\<close> header when there is one,
  and the outcome of \<open>json.loads\<close> on its body (\<open>None\<close> when that raises
  \<open>JSONDecodeError\<close>).
\<close>

record response =
  status_code :: int
  content_type :: "string option"
  body :: "json option"

record request =
  rq_method :: string
  rq_url :: string
  rq_response :: "response option"

datatype 'a attempt = Raises | Gives 'a

datatype find_result = Found | NoSuchElement | FindRaises

text \<open>
  One round of the paging loop reads three things: the requests captured so far, whether
  the disabled next-page control is on the page, and whether waiting for the next-page
  button and clicking it went through. \<open>requests_seen\<close> is \<open>Raises\<close> when
  \<open>capture_latest_data_request\<close> does not return: the driver fails to hand over its
  requests, or \<open>json.loads\<close> raises something that is not a \<open>JSONDecodeError\<close>
  (its recursion or integer-size limits).
\<close>

record page_obs =
  requests_seen :: "request list attempt"
  next_disabled :: find_result
  next_clicked :: bool

text \<open>
  Fetching one user id first opens the data page and submits the search (either may
  raise), then pages. \<open>pages n\<close> is what the \<open>n\<close>-th round sees. Setting the table
  length is not part of the record: its failure is caught and only printed.

  After the loop, still inside the \<open>try\<close>, the function prints how many records it
  collected and only then returns the sliced list:
  \<^verbatim>\<open>
      print(f"... Collected {len(user_logs[:max_logs])} logs.")
      return user_id_to_search, user_logs[:max_logs]
  except Exception as e:
      print(f"... ERROR - {e}", file=sys.stderr)
      return user_id_to_search, user_logs # Return partial if any
  \<close>
  \<open>summary_printed\<close> says whether that \<open>print\<close> goes through; it raises when
  standard output cannot be written (a closed pipe, a full disk). The \<open>print\<close> before
  the \<open>try\<close> and the one in the \<open>except\<close> clause are not in the record: when one
  of them raises, the function returns nothing.
\<close>

record fetch_obs =
  page_opened :: bool
  search_submitted :: bool
  pages :: "nat \<Rightarrow> page_obs"
  summary_printed :: bool

subsection \<open>\<open>capture_latest_data_request\<close>\<close>

definition is_data_request :: "request \<Rightarrow> bool" where
  "is_data_request rq \<longleftrightarrow> rq_method rq = ''POST'' \<and> py_in ''/admin/connectionLogs'' (rq_url rq)"

definition capture_latest_data_request :: "request list \<Rightarrow> json list option" where
  "capture_latest_data_request requests =
     (case find is_data_request (rev requests) of
        None \<Rightarrow> None
      | Some target_request \<Rightarrow>
          (case rq_response target_request of
             None \<Rightarrow> None
           | Some resp \<Rightarrow>
               if status_code resp = 200
                  \<and> prefix ''application/json''
                       (case content_type resp of None \<Rightarrow> [] | Some ct \<Rightarrow> ct)
               then (case body resp of
                       None \<Rightarrow> None
                     | Some (JObj members) \<Rightarrow>
                         (case map_of members ''data'' of
                            Some (JArr page) \<Rightarrow> Some page
                          | _ \<Rightarrow> None)
                     | Some (JArr page) \<Rightarrow> Some page
                     | Some _ \<Rightarrow> None)
               else None))"

subsection \<open>\<open>search_and_fetch_logs_for_id\<close>\<close>

text \<open>
  The paging loop ends in one of two ways: it leaves the \<open>while\<close> (by its condition or
  a \<open>break\<close>), or a driver call raises and control goes to the function's outer
  \<open>except Exception\<close>. Both carry the records collected so far.
\<close>

datatype loop_exit = Finished "json list" | Aborted "json list"

function fetch_pages :: "(nat \<Rightarrow> page_obs) \<Rightarrow> int \<Rightarrow> nat \<Rightarrow> json list \<Rightarrow> loop_exit" where
  "fetch_pages seen max_logs page_count user_logs =
     (if \<not> int (length user_logs) < max_logs then Finished user_logs
      else case requests_seen (seen page_count) of
        Raises \<Rightarrow> Aborted user_logs
      | Gives requests \<Rightarrow>
          (case capture_latest_data_request requests of
             None \<Rightarrow> Finished user_logs
           | Some page_data \<Rightarrow>
               if page_data = [] then Finished user_logs
               else if int (length (user_logs @ page_data)) \<ge> max_logs
                 then Finished (user_logs @ page_data)
               else (case next_disabled (seen page_count) of
                       Found \<Rightarrow> Finished (user_logs @ page_data)
                     | FindRaises \<Rightarrow> Aborted (user_logs @ page_data)
                     | NoSuchElement \<Rightarrow>
                         if next_clicked (seen page_count)
                         then fetch_pages seen max_logs (Suc page_count) (user_logs @ page_data)
                         else Finished (user_logs @ page_data))))"
  by pat_completeness auto
termination
  by (relation "measure (\<lambda>(seen, max_logs, page_count, user_logs).
                   nat (max_logs - int (length user_logs)))") auto

declare fetch_pages.simps [simp del]

text \<open>Python's \<open>xs[:n]\<close>: a negative \<open>n\<close> counts from the end.\<close>

definition py_slice_to :: "'a list \<Rightarrow> int \<Rightarrow> 'a list" where
  "py_slice_to xs n = (if 0 \<le> n then take (nat n) xs else take (length xs - nat (- n)) xs)"

definition search_and_fetch_logs_for_id :: "fetch_obs \<Rightarrow> string \<Rightarrow> int \<Rightarrow> string \<times> json list" where
  "search_and_fetch_logs_for_id obs user_id_to_search max_logs =
     (if \<not> page_opened obs \<or> \<not> search_submitted obs then (user_id_to_search, [])
      else case fetch_pages (pages obs) max_logs 1 [] of
        Finished user_logs \<Rightarrow>
          if summary_printed obs then (user_id_to_search, py_slice_to user_logs max_logs)
          else (user_id_to_search, user_logs)
      | Aborted user_logs \<Rightarrow> (user_id_to_search, user_logs))"

subsection \<open>\<open>process_id_batch_worker\<close>\<close>

text \<open>\<open>obs i\<close> is what the worker's browser shows while it fetches the \<open>i\<close>-th id of
  its batch.\<close>

definition process_id_batch_worker :: "(nat \<Rightarrow> fetch_obs) \<Rightarrow> string list \<Rightarrow> int \<Rightarrow> json list" where
  "process_id_batch_worker obs id_batch max_logs_per_user_val =
     map (\<lambda>(i, user_id).
            JObj [(''user_id'', JStr user_id),
                  (''logs'', JArr (snd (search_and_fetch_logs_for_id (obs i) user_id
                                          max_logs_per_user_val)))])
         (enumerate 0 id_batch)"

subsection \<open>\<open>load_processed_user_ids\<close>\<close>

text \<open>\<open>entry['user_id']\<close> when \<open>entry\<close> is a dict that has the key.\<close>

definition entry_user_id :: "json \<Rightarrow> json option" where
  "entry_user_id entry = (case entry of JObj members \<Rightarrow> map_of members ''user_id'' | _ \<Rightarrow> None)"

text \<open>The body of the \<open>try\<close>: any exception leaves it.\<close>

definition load_processed_user_ids_try ::
    "(json \<Rightarrow> string) \<Rightarrow> load_result \<Rightarrow> py_exception + string set" where
  "load_processed_user_ids_try py_repr file =
     (case file of
        LoadRaises e \<Rightarrow> Inl e
      | Loaded data \<Rightarrow>
          (case py_iter data of
             Inl e \<Rightarrow> Inl e
           | Inr entries \<Rightarrow>
               Inr (set (List.map_filter
                           (\<lambda>entry. map_option (py_str py_repr) (entry_user_id entry))
                           entries))))"

text \<open>The function with its three \<open>except\<close> clauses. \<open>Inl\<close> would be an exception that
  leaves the function.\<close>

definition load_processed_user_ids ::
    "(json \<Rightarrow> string) \<Rightarrow> load_result \<Rightarrow> py_exception + string set" where
  "load_processed_user_ids py_repr file =
     (case load_processed_user_ids_try py_repr file of
        Inr processed_ids \<Rightarrow> Inr processed_ids
      | Inl FileNotFoundError \<Rightarrow> Inr {}
      | Inl JSONDecodeError \<Rightarrow> Inr {}
      | Inl _ \<Rightarrow> Inr {})"

subsection \<open>\<open>save_results_to_json\<close>\<close>

text \<open>
  The function first reads the file it is about to replace (the result is not used), then
  opens it with mode \<open>'w'\<close>, which empties it, and lets \<open>json.dump\<close> write into it.
  The file on disk is \<open>None\<close> when absent, else its text.

  \<open>existing\<close> is what reading the file gives. \<open>stop\<close> says how far the write gets:
  \<open>None\<close> when it runs to the end; \<open>Some 0\<close> when the function is stopped before the
  file is open for writing (the process is killed, or \<open>open\<close> raises); \<open>Some (Suc n)\<close>
  when it is stopped after the file was opened and \<open>n\<close> characters reached the disk (the
  process is killed, or a write raises and the outer \<open>except\<close> prints the error).
\<close>

definition read_existing_ok :: "load_result \<Rightarrow> bool" where
  "read_existing_ok existing =
     (case existing of
        LoadRaises FileNotFoundError \<Rightarrow> True
      | LoadRaises JSONDecodeError \<Rightarrow> True
      | LoadRaises _ \<Rightarrow> False
      | Loaded current_data_to_save \<Rightarrow>
          (case py_iter current_data_to_save of Inl _ \<Rightarrow> False | Inr _ \<Rightarrow> True))"

definition save_results_to_json ::
    "json \<Rightarrow> load_result \<Rightarrow> nat option \<Rightarrow> string option \<Rightarrow> string option" where
  "save_results_to_json all_results existing stop disk =
     (if \<not> read_existing_ok existing then disk
      else case stop of
        None \<Rightarrow> Some (json_dump all_results)
      | Some 0 \<Rightarrow> disk
      | Some (Suc n) \<Rightarrow> Some (take n (json_dump all_results)))"

subsection \<open>The main block\<close>

text \<open>
  The credentials come from the command line or the environment and are \<open>None\<close> when
  neither gives them. The test is
  \<^verbatim>\<open>
  if not current_username or not current_password \
     or "YOUR_USERNAME" in current_username or "YOUR_PASSWORD" in current_password:
      ...; sys.exit(1)
  \<close>
\<close>

definition credentials_unset :: "string option \<Rightarrow> string option \<Rightarrow> bool" where
  "credentials_unset current_username current_password =
     (case current_username of
        None \<Rightarrow> True
      | Some u \<Rightarrow>
          u = [] \<or>
          (case current_password of
             None \<Rightarrow> True
           | Some p \<Rightarrow> p = [] \<or> py_in ''YOUR_USERNAME'' u \<or> py_in ''YOUR_PASSWORD'' p))"

text \<open>
  The queue of ids still to fetch, and its division among the browser instances:
  \<^verbatim>\<open>
  ids_to_process_queue = [uid for uid in all_user_ids_from_file
                          if uid not in processed_user_ids_set]
  ...
  ids_per_driver = math.ceil(len(ids_to_process_queue) / num_active_drivers)
  id_batches = []
  for i in range(num_active_drivers):
      start_index = i * ids_per_driver
      end_index = start_index + ids_per_driver
      batch = ids_to_process_queue[start_index:end_index]
      if batch:
          id_batches.append(batch)
  \<close>
  \<open>num_active_drivers\<close> is at least one when this code runs (the script exits before
  when no instance logged in), so the division does not raise. \<open>math.ceil\<close> of the
  float quotient is the integer ceiling for every length a Python list can have.
\<close>

definition ids_to_process_queue :: "string list \<Rightarrow> string set \<Rightarrow> string list" where
  "ids_to_process_queue all_user_ids_from_file processed_user_ids_set =
     [uid \<leftarrow> all_user_ids_from_file. uid \<notin> processed_user_ids_set]"

definition ceil_div :: "nat \<Rightarrow> nat \<Rightarrow> nat" where
  "ceil_div a b = (a + b - 1) div b"

text \<open>Python's \<open>xs[s:e]\<close> for non-negative bounds: both ends are clamped to the list.\<close>

definition py_slice :: "'a list \<Rightarrow> nat \<Rightarrow> nat \<Rightarrow> 'a list" where
  "py_slice xs s e = take (e - s) (drop s xs)"

definition id_batches :: "string list \<Rightarrow> nat \<Rightarrow> string list list" where
  "id_batches queue num_active_drivers =
     (let ids_per_driver = ceil_div (length queue) num_active_drivers
      in filter (\<lambda>batch. batch \<noteq> [])
           (map (\<lambda>i. py_slice queue (i * ids_per_driver)
                        (i * ids_per_driver + ids_per_driver))
                [0..<num_active_drivers]))"

text \<open>
  The browser instances are started one after the other:
  \<^verbatim>\<open>
  active_drivers_waits = []
  for i in range(args.max_workers):
      driver, wait = initialize_and_login_driver(current_username, current_password, ...)
      if driver and wait:
          active_drivers_waits.append({'driver': driver, 'wait': wait, 'id': driver.session_id[:8]})
      ...
  if not active_drivers_waits:
      print("ERROR: No WebDriver instances could be ...", file=sys.stderr)
      sys.exit(1)
  \<close>
  Starting an instance gives a logged-in driver, or gives none (the start or the login
  failed and \<open>initialize_and_login_driver\<close> caught it), or raises: the handlers of
  \<open>initialize_and_login_driver\<close> call \<open>driver.quit()\<close> unprotected. \<open>logins i\<close> is
  what starting the \<open>i\<close>-th instance does. The loop keeps the instances that logged in,
  here by their number.
\<close>

datatype login_result = LoggedIn | NotLoggedIn | LoginRaises

fun login_instances :: "(nat \<Rightarrow> login_result) \<Rightarrow> nat list \<Rightarrow> nat list \<Rightarrow> py_exception + nat list" where
  "login_instances logins [] active_drivers_waits = Inr active_drivers_waits"
| "login_instances logins (i # rest) active_drivers_waits =
     (case logins i of
        LoggedIn \<Rightarrow> login_instances logins rest (active_drivers_waits @ [i])
      | NotLoggedIn \<Rightarrow> login_instances logins rest active_drivers_waits
      | LoginRaises \<Rightarrow> Inl OtherException)"

text \<open>
  The start of the run, from the parsed arguments to the point where the queue is
  divided among the instances. It leaves through one of the four \<open>sys.exit\<close> calls,
  is ended by an exception nobody catches, or goes on to harvest a non-empty queue with
  the instances that logged in. Printing to the console is taken to succeed here.
\<close>

datatype exit_point = CredentialsCheck | EmptyIdFile | AllProcessed | NoInstance

datatype startup =
    Exit int exit_point
  | Uncaught py_exception
  | Harvest "string list" "nat list"

definition main_startup ::
    "(json \<Rightarrow> string) \<Rightarrow> string option \<Rightarrow> string option \<Rightarrow> string list \<Rightarrow> load_result
     \<Rightarrow> int \<Rightarrow> (nat \<Rightarrow> login_result) \<Rightarrow> startup" where
  "main_startup py_repr current_username current_password all_user_ids_from_file output_file
       max_workers logins =
     (if credentials_unset current_username current_password then Exit 1 CredentialsCheck
      else if all_user_ids_from_file = [] then Exit 0 EmptyIdFile
      else case load_processed_user_ids py_repr output_file of
        Inl e \<Rightarrow> Uncaught e
      | Inr processed_user_ids_set \<Rightarrow>
          (let queue = ids_to_process_queue all_user_ids_from_file processed_user_ids_set
           in if queue = [] then Exit 0 AllProcessed
              else case login_instances logins [0..<nat max_workers] [] of
                Inl e \<Rightarrow> Uncaught e
              | Inr active_drivers_waits \<Rightarrow>
                  if active_drivers_waits = [] then Exit 1 NoInstance
                  else Harvest queue active_drivers_waits))"


text \<open>
  A worker's future gives the batch's results or raises. The loop over the completed
  futures is
  \<^verbatim>\<open>
  try:
      batch_results = future.result()
      if batch_results:
          final_results_list.extend(batch_results)
      ...
      save_results_to_json(final_results_list, args.output, file_save_lock)
  except Exception as exc:
      print(...)
  \<close>
  Only a list has \<open>extend\<close>; on any other document the call raises and the
  \<open>except\<close> clause prints.
\<close>

datatype future_result = Returned "json list" | FutureRaises

definition collect_batch_results :: "json \<Rightarrow> future_result \<Rightarrow> json" where
  "collect_batch_results final_results_list future =
     (case future of
        FutureRaises \<Rightarrow> final_results_list
      | Returned batch_results \<Rightarrow>
          if batch_results = [] then final_results_list
          else (case final_results_list of
                  JArr entries \<Rightarrow> JArr (entries @ batch_results)
                | _ \<Rightarrow> final_results_list))"


section \<open>multiAccountChecker.py\<close>

text \<open>
  The analysis reads five fields of each log record with \<open>record.get\<close>, which gives
  \<open>None\<close> for a missing key as for a JSON null. User ids and identifier values are
  used as dictionary keys only and the timestamp is compared as a string, so a record is
  modelled by these five optional fields.
\<close>

record ('u, 'v) log_record =
  userId :: "'u option"
  hwid :: "'v option"
  socialClubId :: "'v option"
  ip :: "'v option"
  timestamp :: "string option"

text \<open>
  The three maps are dictionaries of dictionaries,
  \<open>identifier -> { userId -> {'count': N, 'last_seen': timestamp} }\<close>. A Python
  dictionary keeps its keys in the order of their first insertion, and the report depends
  on that order, so a dictionary is the list of its items in that order.
\<close>

type_synonym 'u user_details_map = "('u \<times> nat \<times> string) list"

type_synonym ('u, 'v) identifier_map = "('v \<times> 'u user_details_map) list"

text \<open>
  \<^verbatim>\<open>
  m[user_id]['count'] += 1
  if timestamp > m[user_id]['last_seen']:
      m[user_id]['last_seen'] = timestamp
  \<close>
  where a missing \<open>user_id\<close> is first inserted with count 0 and last-seen \<open>''\<close>.
\<close>

fun count_use :: "'u \<Rightarrow> string \<Rightarrow> 'u user_details_map \<Rightarrow> 'u user_details_map" where
  "count_use user_id ts [] = [(user_id, Suc 0, if ts > [] then ts else [])]"
| "count_use user_id ts ((u, c, l) # rest) =
     (if u = user_id then (u, Suc c, if ts > l then ts else l) # rest
      else (u, c, l) # count_use user_id ts rest)"

fun record_use :: "'v \<Rightarrow> 'u \<Rightarrow> string \<Rightarrow> ('u, 'v) identifier_map \<Rightarrow> ('u, 'v) identifier_map" where
  "record_use v user_id ts [] = [(v, count_use user_id ts [])]"
| "record_use v user_id ts ((w, d) # rest) =
     (if w = v then (w, count_use user_id ts d) # rest
      else (w, d) # record_use v user_id ts rest)"

definition note_identifier ::
    "'v option \<Rightarrow> 'u \<Rightarrow> string \<Rightarrow> ('u, 'v) identifier_map \<Rightarrow> ('u, 'v) identifier_map" where
  "note_identifier field user_id ts m =
     (case field of None \<Rightarrow> m | Some v \<Rightarrow> record_use v user_id ts m)"

text \<open>The body of the loop over the records.\<close>

definition analyze_record ::
    "('u, 'v) identifier_map \<times> ('u, 'v) identifier_map \<times> ('u, 'v) identifier_map
     \<Rightarrow> ('u, 'v) log_record
     \<Rightarrow> ('u, 'v) identifier_map \<times> ('u, 'v) identifier_map \<times> ('u, 'v) identifier_map" where
  "analyze_record maps record =
     (case userId record of
        None \<Rightarrow> maps
      | Some user_id \<Rightarrow>
          (case timestamp record of
             None \<Rightarrow> maps
           | Some ts \<Rightarrow>
               (case maps of (hwid_map, social_club_map, ip_map) \<Rightarrow>
                  (note_identifier (hwid record) user_id ts hwid_map,
                   note_identifier (socialClubId record) user_id ts social_club_map,
                   note_identifier (ip record) user_id ts ip_map))))"

definition shared_only :: "('u, 'v) identifier_map \<Rightarrow> ('u, 'v) identifier_map" where
  "shared_only m = filter (\<lambda>(v, user_details_map). length user_details_map > 1) m"

definition analyze_data ::
    "('u, 'v) log_record list
     \<Rightarrow> ('u, 'v) identifier_map \<times> ('u, 'v) identifier_map \<times> ('u, 'v) identifier_map" where
  "analyze_data data =
     (if data = [] then ([], [], [])
      else case foldl analyze_record ([], [], []) data of
        (hwid_map, social_club_map, ip_map) \<Rightarrow>
          (shared_only hwid_map, shared_only social_club_map, shared_only ip_map))"

definition shared_hwids :: "('u, 'v) log_record list \<Rightarrow> ('u, 'v) identifier_map" where
  "shared_hwids data = fst (analyze_data data)"

definition shared_social_clubs :: "('u, 'v) log_record list \<Rightarrow> ('u, 'v) identifier_map" where
  "shared_social_clubs data = fst (snd (analyze_data data))"

definition shared_ips :: "('u, 'v) log_record list \<Rightarrow> ('u, 'v) identifier_map" where
  "shared_ips data = snd (snd (analyze_data data))"

subsection \<open>\<open>print_results\<close>\<close>

text \<open>
  For each shared identifier the report sorts the users,
  \<^verbatim>\<open>
  sorted_users = sorted(user_details_map.items(),
                        key=lambda item: (item[1]['count'], item[1]['last_seen']),
                        reverse=True)
  primary_user_id, primary_details = sorted_users[0]
  \<close>
  prints the first as the likely primary user, and then every item of \<open>sorted_users\<close>
  whose id differs from the primary's. \<open>sorted\<close> is stable, and with
  \<open>reverse=True\<close> it sorts the reversed list and reverses the result. Tuples compare
  lexicographically, strings by code point.
\<close>

definition sort_key_of :: "'u \<times> nat \<times> string \<Rightarrow> nat \<times> string" where
  "sort_key_of item = (fst (snd item), snd (snd item))"

definition sorted_users :: "'u user_details_map \<Rightarrow> 'u user_details_map" where
  "sorted_users user_details_map = rev (sort_key sort_key_of (rev user_details_map))"

text \<open>The primary line and the secondary lines of one group; \<open>None\<close> for an empty
  group, which the script reports as having no user data.\<close>

definition report_group ::
    "'u user_details_map \<Rightarrow> (('u \<times> nat \<times> string) \<times> 'u user_details_map) option" where
  "report_group user_details_map =
     (if user_details_map = [] then None
      else case sorted_users user_details_map of
        [] \<Rightarrow> None
      | primary # _ \<Rightarrow>
          Some (primary,
                filter (\<lambda>item. fst item \<noteq> fst primary) (sorted_users user_details_map)))"

section \<open>Notions used in the statements and proofs\<close>

text \<open>The number of non-empty slices of length \<open>p\<close> that a list of length \<open>n\<close> has.\<close>

definition slice_count :: "nat \<Rightarrow> nat \<Rightarrow> nat" where
  "slice_count n p = (if p = 0 then 0 else ceil_div n p)"

text \<open>The loop of \<open>analyze_data\<close> restricted to one of the three fields.\<close>

definition field_step ::
    "(('u, 'v) log_record \<Rightarrow> 'v option) \<Rightarrow> ('u, 'v) identifier_map \<Rightarrow> ('u, 'v) log_record
     \<Rightarrow> ('u, 'v) identifier_map" where
  "field_step field m record =
     (case userId record of
        None \<Rightarrow> m
      | Some user_id \<Rightarrow>
          (case timestamp record of
             None \<Rightarrow> m
           | Some ts \<Rightarrow> note_identifier (field record) user_id ts m))"

text \<open>The users seen with identifier value \<open>v\<close> in a field, on records that carry a
  user id and a timestamp.\<close>

definition users_of ::
    "(('u, 'v) log_record \<Rightarrow> 'v option) \<Rightarrow> 'v \<Rightarrow> ('u, 'v) log_record list \<Rightarrow> 'u set" where
  "users_of field v data =
     {u. \<exists>r \<in> set data. userId r = Some u \<and> timestamp r \<noteq> None \<and> field r = Some v}"

text \<open>The key of the store: the \<open>user_id\<close> members of the entries of a result list.\<close>

definition entry_keys :: "json list \<Rightarrow> json option list" where
  "entry_keys entries = map entry_user_id entries"

text \<open>Sample inputs: a captured data request that answers with a given body, and
  browsers that serve two records on every page, with a given answer to the look for the
  disabled next-page control and a given fate of the summary print.\<close>

definition data_request :: "json option \<Rightarrow> request" where
  "data_request raw_data =
     \<lparr>rq_method = ''POST'',
      rq_url = ''https://v.b-zone.ro/admin/connectionLogs'',
      rq_response = Some \<lparr>status_code = 200,
                            content_type = Some ''application/json; charset=utf-8'',
                            body = raw_data\<rparr>\<rparr>"

definition two_per_page :: "find_result \<Rightarrow> bool \<Rightarrow> fetch_obs" where
  "two_per_page next_control printed =
     \<lparr>page_opened = True,
      search_submitted = True,
      pages = (\<lambda>n. \<lparr>requests_seen =
                         Gives [data_request (Some (JObj [(''data'', JArr [JStr ''a'', JStr ''b''])]))],
                      next_disabled = next_control,
                      next_clicked = True\<rparr>),
      summary_printed = printed\<rparr>"

text \<open>Every browser instance meets the same fate.\<close>

definition every_login :: "login_result \<Rightarrow> nat \<Rightarrow> login_result" where
  "every_login r i = r"

text \<open>In the sample runs no \<open>user_id\<close> is a list or a dict, so the text Python
  would print for one is never asked for; this stands in for it.\<close>

definition sample_repr :: "json \<Rightarrow> string" where
  "sample_repr v = ''<container>''"

definition sample_entry :: "string \<Rightarrow> json list \<Rightarrow> json" where
  "sample_entry user_id logs = JObj [(''user_id'', JStr user_id), (''logs'', JArr logs)]"

text \<open>Sample log records: users 1 and 2 share hardware id \<open>A\<close>; \<open>B\<close> is seen
  with user 3 and, on a record without timestamp, with user 4.\<close>

definition sample_records :: "(nat, string) log_record list" where
  "sample_records =
     [\<lparr>userId = Some 1, hwid = Some ''A'', socialClubId = None, ip = None, timestamp = Some ''t1''\<rparr>,
      \<lparr>userId = Some 2, hwid = Some ''A'', socialClubId = None, ip = None, timestamp = Some ''t2''\<rparr>,
      \<lparr>userId = Some 3, hwid = Some ''B'', socialClubId = None, ip = None, timestamp = Some ''t3''\<rparr>,
      \<lparr>userId = Some 4, hwid = Some ''B'', socialClubId = None, ip = None, timestamp = None\<rparr>]"

chapter \<open>Properties\<close>

section \<open>Work distribution\<close>

lemma py_slice_chunk: "py_slice xs (i * p) (i * p + p) = take p (drop (i * p) xs)"
  by (simp add: py_slice_def)

lemma concat_chunks: "concat (map (\<lambda>i. take p (drop (i * p) xs)) [0..<n]) = take (n * p) xs"
proof (induction n)
  case 0
  show ?case by simp
next
  case (Suc n)
  have "take (n * p) xs @ take p (drop (n * p) xs) = take (n * p + p) xs"
    by (simp add: take_add)
  with Suc show ?case by (simp add: add.commute)
qed

lemma concat_filter_nonempty: "concat (filter (\<lambda>b. b \<noteq> []) xss) = concat xss"
  by (induction xss) auto

lemma ceil_div_covers: "0 < k \<Longrightarrow> n \<le> k * ceil_div n k"
proof -
  assume k: "0 < k"
  have "n + k - 1 < k * ((n + k - 1) div k) + k"
    using k by (metis add.commute dividend_less_times_div)
  then show ?thesis using k by (simp add: ceil_div_def)
qed

lemma filter_less_upt: "filter (\<lambda>i. i < m) [0..<n] = [0..<min n m]"
proof (induction n)
  case 0
  show ?case by simp
next
  case (Suc n)
  show ?case
  proof (cases "n < m")
    case True
    with Suc show ?thesis by (simp add: min_def)
  next
    case False
    then have "min (Suc n) m = m" "min n m = m" by simp_all
    with Suc False show ?thesis by simp
  qed
qed

lemma id_batches_concat: "0 < k \<Longrightarrow> concat (id_batches q k) = q"
  using ceil_div_covers [of k "length q"]
  by (simp add: id_batches_def Let_def py_slice_chunk concat_filter_nonempty concat_chunks)

lemma id_batches_length_le: "length (id_batches q k) \<le> k"
proof -
  let ?slices = "map (\<lambda>i. py_slice q (i * ceil_div (length q) k)
                      (i * ceil_div (length q) k + ceil_div (length q) k)) [0..<k]"
  have "length (filter (\<lambda>batch. batch \<noteq> []) ?slices) \<le> length ?slices"
    by (rule length_filter_le)
  then show ?thesis by (simp add: id_batches_def Let_def)
qed

lemma mult_less_iff_less_ceil_div: "0 < p \<Longrightarrow> i * p < n \<longleftrightarrow> i < ceil_div n p"
proof -
  assume p: "0 < p"
  have "i < ceil_div n p \<longleftrightarrow> Suc i \<le> (n + p - 1) div p"
    by (simp add: ceil_div_def Suc_le_eq)
  also have "\<dots> \<longleftrightarrow> Suc i * p \<le> n + p - 1"
    using p by (simp add: less_eq_div_iff_mult_less_eq)
  also have "\<dots> \<longleftrightarrow> i * p < n"
    using p by auto
  finally show ?thesis by simp
qed

lemma chunk_nonempty_slice_count:
  "take p (drop (i * p) xs) \<noteq> [] \<longleftrightarrow> i < slice_count (length xs) p"
proof (cases "p = 0")
  case True
  then show ?thesis by (simp add: slice_count_def)
next
  case False
  then have "0 < p" by simp
  from mult_less_iff_less_ceil_div [OF this, of i "length xs"] False
  show ?thesis by (simp add: slice_count_def not_le)
qed

text \<open>The batches are the leading non-empty slices, in order.\<close>

lemma id_batches_eq:
  "id_batches q k =
     map (\<lambda>i. take (ceil_div (length q) k) (drop (i * ceil_div (length q) k) q))
       [0..<min k (slice_count (length q) (ceil_div (length q) k))]"
proof -
  let ?p = "ceil_div (length q) k"
  let ?f = "\<lambda>i. take ?p (drop (i * ?p) q)"
  have "id_batches q k = filter (\<lambda>batch. batch \<noteq> []) (map ?f [0..<k])"
    by (simp add: id_batches_def Let_def py_slice_chunk)
  also have "\<dots> = map ?f (filter (\<lambda>i. ?f i \<noteq> []) [0..<k])"
    by (simp add: filter_map o_def)
  also have "filter (\<lambda>i. ?f i \<noteq> []) [0..<k]
               = filter (\<lambda>i. i < slice_count (length q) ?p) [0..<k]"
    by (simp only: chunk_nonempty_slice_count)
  finally show ?thesis by (simp only: filter_less_upt)
qed

lemma id_batches_nth:
  "i < length (id_batches q k) \<Longrightarrow>
     id_batches q k ! i = take (ceil_div (length q) k) (drop (i * ceil_div (length q) k) q)"
  by (simp add: id_batches_eq)

lemma id_batches_nth_nonempty: "i < length (id_batches q k) \<Longrightarrow> id_batches q k ! i \<noteq> []"
proof -
  assume "i < length (id_batches q k)"
  then have "id_batches q k ! i \<in> set (id_batches q k)" by (rule nth_mem)
  then show ?thesis by (simp add: id_batches_def Let_def)
qed

lemma id_batches_full_before_last:
  assumes "Suc i < length (id_batches q k)"
  shows "length (id_batches q k ! i) = ceil_div (length q) k"
proof -
  let ?p = "ceil_div (length q) k"
  from assms have "Suc i < slice_count (length q) ?p"
    by (simp add: id_batches_eq)
  then have "take ?p (drop (Suc i * ?p) q) \<noteq> []"
    by (simp only: chunk_nonempty_slice_count)
  then have "Suc i * ?p < length q" by auto
  moreover from assms have "id_batches q k ! i = take ?p (drop (i * ?p) q)"
    by (simp add: id_batches_nth)
  ultimately show ?thesis by simp
qed

lemma count_list_filter_notin:
  "count_list [u \<leftarrow> xs. u \<notin> D] v = (if v \<in> D then 0 else count_list xs v)"
  by (induction xs) auto

text \<open>
  Claim C3. For every list of ids, every set of done ids and every number \<open>K \<ge> 1\<close> of
  sessions: the pending queue is the input without the done ids, in the input's order
  (a subsequence of the input that keeps every occurrence of every id that is not done
  and nothing else); the batches are the slices of the queue of length
  \<open>ceil(|pending| / K)\<close> taken one after the other, none empty, all but the last of
  full length; their concatenation is the queue; and there are at most \<open>K\<close> of them.
\<close>

theorem work_distribution_partition:
  assumes "1 \<le> K"
  shows "let pending = ids_to_process_queue input done_ids;
             per = ceil_div (length pending) K;
             batches = id_batches pending K
         in pending = filter (\<lambda>uid. uid \<notin> done_ids) input
            \<and> subseq pending input
            \<and> (\<forall>u. count_list pending u = (if u \<in> done_ids then 0 else count_list input u))
            \<and> concat batches = pending
            \<and> length batches \<le> K
            \<and> (\<forall>i < length batches.
                  batches ! i = take per (drop (i * per) pending)
                  \<and> batches ! i \<noteq> []
                  \<and> length (batches ! i) \<le> per)
            \<and> (\<forall>i. Suc i < length batches \<longrightarrow> length (batches ! i) = per)"
proof -
  let ?pending = "ids_to_process_queue input done_ids"
  have order: "subseq ?pending input"
    by (simp add: ids_to_process_queue_def)
  have counts: "\<forall>u. count_list ?pending u = (if u \<in> done_ids then 0 else count_list input u)"
    by (simp add: ids_to_process_queue_def count_list_filter_notin)
  from assms have cover: "concat (id_batches ?pending K) = ?pending"
    by (simp add: id_batches_concat)
  have slices: "\<forall>i < length (id_batches ?pending K).
      id_batches ?pending K ! i
        = take (ceil_div (length ?pending) K) (drop (i * ceil_div (length ?pending) K) ?pending)
      \<and> id_batches ?pending K ! i \<noteq> []
      \<and> length (id_batches ?pending K ! i) \<le> ceil_div (length ?pending) K"
  proof (intro allI impI conjI)
    fix i
    assume i: "i < length (id_batches ?pending K)"
    then show eq: "id_batches ?pending K ! i
        = take (ceil_div (length ?pending) K) (drop (i * ceil_div (length ?pending) K) ?pending)"
      by (rule id_batches_nth)
    from i show "id_batches ?pending K ! i \<noteq> []"
      by (rule id_batches_nth_nonempty)
    show "length (id_batches ?pending K ! i) \<le> ceil_div (length ?pending) K"
      by (simp only: eq length_take min.cobounded2)
  qed
  have full: "\<forall>i. Suc i < length (id_batches ?pending K)
      \<longrightarrow> length (id_batches ?pending K ! i) = ceil_div (length ?pending) K"
    by (simp add: id_batches_full_before_last)
  have filtered: "?pending = filter (\<lambda>uid. uid \<notin> done_ids) input"
    by (simp add: ids_to_process_queue_def)
  from filtered order counts cover id_batches_length_le [of ?pending K] slices full
  show ?thesis unfolding Let_def by blast
qed

theorem work_distribution_partition_witness:
  "(1::nat) \<le> 3
   \<and> ids_to_process_queue [''11'', ''12'', ''13'', ''14'', ''15''] {''12''}
       = [''11'', ''13'', ''14'', ''15'']
   \<and> id_batches [''11'', ''13'', ''14'', ''15''] 3 = [[''11'', ''13''], [''14'', ''15'']]
   \<and> concat (id_batches (ids_to_process_queue [''11'', ''12'', ''13'', ''14'', ''15''] {''12''}) 3)
       = ids_to_process_queue [''11'', ''12'', ''13'', ''14'', ''15''] {''12''}
   \<and> length (id_batches (ids_to_process_queue [''11'', ''12'', ''13'', ''14'', ''15''] {''12''}) 3)
       \<le> 3"
proof -
  have k: "(1::nat) \<le> 3" by simp
  have q: "ids_to_process_queue [''11'', ''12'', ''13'', ''14'', ''15''] {''12''}
             = [''11'', ''13'', ''14'', ''15'']"
    by (simp add: ids_to_process_queue_def)
  have b: "id_batches [''11'', ''13'', ''14'', ''15''] 3 = [[''11'', ''13''], [''14'', ''15'']]"
    by (simp add: id_batches_def ceil_div_def py_slice_def upt_rec)
  from work_distribution_partition [OF k, of "[''11'', ''12'', ''13'', ''14'', ''15'']" "{''12''}"]
  have "concat (id_batches (ids_to_process_queue [''11'', ''12'', ''13'', ''14'', ''15''] {''12''}) 3)
          = ids_to_process_queue [''11'', ''12'', ''13'', ''14'', ''15''] {''12''}
        \<and> length (id_batches (ids_to_process_queue [''11'', ''12'', ''13'', ''14'', ''15''] {''12''}) 3)
          \<le> 3"
    unfolding Let_def by blast
  with k q b show ?thesis by blast
qed

section \<open>Decoding a captured response\<close>

lemma fetch_pages_empty_page:
  assumes "requests_seen (seen n) = Gives requests"
    and "capture_latest_data_request requests = None
         \<or> capture_latest_data_request requests = Some []"
  shows "fetch_pages seen m n logs = Finished logs"
  using assms by (subst fetch_pages.simps) auto

lemma capture_of_target:
  assumes "find is_data_request (rev requests) = Some rq"
    and "rq_response rq = Some resp"
    and "status_code resp = 200"
    and "prefix ''application/json'' (case content_type resp of None \<Rightarrow> [] | Some ct \<Rightarrow> ct)"
  shows "capture_latest_data_request requests =
           (case body resp of
              None \<Rightarrow> None
            | Some (JObj members) \<Rightarrow>
                (case map_of members ''data'' of Some (JArr page) \<Rightarrow> Some page | _ \<Rightarrow> None)
            | Some (JArr page) \<Rightarrow> Some page
            | Some _ \<Rightarrow> None)"
  using assms by (simp add: capture_latest_data_request_def)

text \<open>
  Claim C8. Let the latest captured data request have a response with status 200 and a
  JSON content type. Then the page it yields is: the \<open>data\<close> member when the parsed
  body is an object whose \<open>data\<close> member is a list; the parsed body itself when it is a
  list; and no page for every other parsed body and for a body that does not parse. No
  page is not an error: like an empty list, it makes the paging loop stop normally with
  the records it has.
\<close>

theorem response_decoding:
  assumes "find is_data_request (rev requests) = Some rq"
    and "rq_response rq = Some resp"
    and "status_code resp = 200"
    and "prefix ''application/json'' (case content_type resp of None \<Rightarrow> [] | Some ct \<Rightarrow> ct)"
  shows "(\<forall>members page. body resp = Some (JObj members) \<and> map_of members ''data'' = Some (JArr page)
            \<longrightarrow> capture_latest_data_request requests = Some page)
       \<and> (\<forall>page. body resp = Some (JArr page)
            \<longrightarrow> capture_latest_data_request requests = Some page)
       \<and> (body resp = None \<longrightarrow> capture_latest_data_request requests = None)
       \<and> ((\<forall>page. body resp \<noteq> Some (JArr page))
           \<and> (\<forall>members page. body resp = Some (JObj members)
                  \<longrightarrow> map_of members ''data'' \<noteq> Some (JArr page))
            \<longrightarrow> capture_latest_data_request requests = None)
       \<and> (\<forall>seen n max_logs user_logs.
             requests_seen (seen n) = Gives requests
             \<and> capture_latest_data_request requests \<in> {None, Some []}
            \<longrightarrow> fetch_pages seen max_logs n user_logs = Finished user_logs)"
proof (intro conjI allI impI)
  note eq = capture_of_target [OF assms]
  {
    fix members page
    assume "body resp = Some (JObj members) \<and> map_of members ''data'' = Some (JArr page)"
    then show "capture_latest_data_request requests = Some page"
      by (simp add: eq)
  next
    fix page
    assume "body resp = Some (JArr page)"
    then show "capture_latest_data_request requests = Some page"
      by (simp add: eq)
  next
    assume "body resp = None"
    then show "capture_latest_data_request requests = None"
      by (simp add: eq)
  next
    assume other: "(\<forall>page. body resp \<noteq> Some (JArr page))
       \<and> (\<forall>members page. body resp = Some (JObj members)
              \<longrightarrow> map_of members ''data'' \<noteq> Some (JArr page))"
    show "capture_latest_data_request requests = None"
    proof (cases "body resp")
      case None
      then show ?thesis by (simp add: eq)
    next
      case (Some raw_data)
      with other show ?thesis
        by (cases raw_data) (auto simp: eq split: option.splits json.splits)
    qed
  next
    fix seen :: "nat \<Rightarrow> page_obs" and n max_logs user_logs
    assume "requests_seen (seen n) = Gives requests
       \<and> capture_latest_data_request requests \<in> {None, Some []}"
    then show "fetch_pages seen max_logs n user_logs = Finished user_logs"
      by (intro fetch_pages_empty_page [of seen n requests]) auto
  }
qed

lemma data_request_is_target: "find is_data_request (rev [data_request raw]) = Some (data_request raw)"
  by (simp add: is_data_request_def data_request_def)

theorem response_decoding_witness:
  "find is_data_request (rev [data_request (Some (JObj [(''draw'', JInt 1), (''data'', JArr [JStr ''a''])]))])
     = Some (data_request (Some (JObj [(''draw'', JInt 1), (''data'', JArr [JStr ''a''])])))
   \<and> capture_latest_data_request
        [data_request (Some (JObj [(''draw'', JInt 1), (''data'', JArr [JStr ''a''])]))]
     = Some [JStr ''a'']"
proof -
  let ?raw = "Some (JObj [(''draw'', JInt 1), (''data'', JArr [JStr ''a''])])"
  let ?resp = "\<lparr>status_code = 200, content_type = Some ''application/json; charset=utf-8'',
                 body = ?raw\<rparr>"
  have target: "find is_data_request (rev [data_request ?raw]) = Some (data_request ?raw)"
    by (rule data_request_is_target)
  have resp: "rq_response (data_request ?raw) = Some ?resp"
    by (simp add: data_request_def)
  have ok: "status_code ?resp = 200" by simp
  have ct: "prefix ''application/json'' (case content_type ?resp of None \<Rightarrow> [] | Some ct \<Rightarrow> ct)"
    by simp
  from response_decoding [OF target resp ok ct]
  have "capture_latest_data_request [data_request ?raw] = Some [JStr ''a'']"
    by simp
  with target show ?thesis by simp
qed

section \<open>The per-user cap\<close>

text \<open>When a driver call raises inside the loop, fewer records than the cap have been
  collected: the loop condition and the test after \<open>extend\<close> have both just passed.\<close>

lemma fetch_pages_aborted:
  "fetch_pages seen m n logs = Aborted out \<Longrightarrow> int (length out) < m"
proof (induction seen m n logs rule: fetch_pages.induct)
  case (1 seen max_logs page_count user_logs)
  from "1.prems" "1.IH" show ?case
    by (subst (asm) fetch_pages.simps)
       (auto split: if_splits attempt.splits option.splits find_result.splits)
qed

lemma fetch_pages_nonpositive_cap: "m \<le> 0 \<Longrightarrow> fetch_pages seen m n [] = Finished []"
  by (subst fetch_pages.simps) simp

text \<open>On every run on which the summary print goes through, the returned list has at
  most cap many records, also when a driver call raised in the middle of paging.\<close>

lemma cap_when_summary_printed:
  assumes "summary_printed obs"
  shows "length (snd (search_and_fetch_logs_for_id obs user_id max_logs)) \<le> nat max_logs"
proof (cases "0 < max_logs")
  case True
  show ?thesis
  proof (cases "fetch_pages (pages obs) max_logs 1 []")
    case (Finished user_logs)
    with True assms show ?thesis
      by (simp add: search_and_fetch_logs_for_id_def py_slice_to_def)
  next
    case (Aborted user_logs)
    from fetch_pages_aborted [OF this] have "length user_logs \<le> nat max_logs" by simp
    with Aborted show ?thesis
      by (simp add: search_and_fetch_logs_for_id_def)
  qed
next
  case False
  then have "fetch_pages (pages obs) max_logs 1 [] = Finished []"
    by (simp add: fetch_pages_nonpositive_cap)
  then show ?thesis
    by (simp add: search_and_fetch_logs_for_id_def py_slice_to_def)
qed

lemma two_per_page_captured:
  "capture_latest_data_request
     [data_request (Some (JObj [(''data'', JArr [JStr ''a'', JStr ''b''])]))]
   = Some [JStr ''a'', JStr ''b'']"
  by (simp add: capture_latest_data_request_def data_request_def is_data_request_def)

lemma two_per_page_paging:
  "fetch_pages (pages (two_per_page NoSuchElement printed)) 3 1 []
     = Finished [JStr ''a'', JStr ''b'', JStr ''a'', JStr ''b'']"
  by (simp add: fetch_pages.simps two_per_page_def two_per_page_captured)

text \<open>
  Claim C4. The claim covers the runs that end in the \<open>except\<close> clause, and there the
  code breaks it. With a cap of 3 and two records on every page the loop stops with 4
  records. The summary print comes before the slicing return, inside the \<open>try\<close>; when
  it raises, the \<open>except\<close> clause returns the list as it is, all 4 records. On the
  same pages with the print going through, the function returns 3.
\<close>

theorem cap_exceeded_when_print_raises:
  "search_and_fetch_logs_for_id (two_per_page NoSuchElement False) ''7'' 3
     = (''7'', [JStr ''a'', JStr ''b'', JStr ''a'', JStr ''b''])
   \<and> search_and_fetch_logs_for_id (two_per_page NoSuchElement True) ''7'' 3
     = (''7'', [JStr ''a'', JStr ''b'', JStr ''a''])"
  unfolding search_and_fetch_logs_for_id_def two_per_page_paging
  by (simp add: two_per_page_def py_slice_to_def)

theorem cap_exceeded_when_print_raises_witness:
  "length (snd (search_and_fetch_logs_for_id (two_per_page NoSuchElement False) ''7'' 3)) = 4
   \<and> \<not> length (snd (search_and_fetch_logs_for_id (two_per_page NoSuchElement False) ''7'' 3))
         \<le> nat 3"
  using cap_exceeded_when_print_raises by simp

section \<open>Loading the processed ids\<close>

lemma load_returns: "\<exists>processed. load_processed_user_ids py_repr file = Inr processed"
  by (auto simp: load_processed_user_ids_def split: sum.splits py_exception.splits)

lemma load_raises_empty: "load_processed_user_ids py_repr (LoadRaises e) = Inr {}"
  by (cases e) (simp_all add: load_processed_user_ids_def load_processed_user_ids_try_def)

lemma load_list:
  "load_processed_user_ids py_repr (Loaded (JArr entries))
     = Inr (set (List.map_filter
                   (\<lambda>entry. map_option (py_str py_repr) (entry_user_id entry)) entries))"
  by (simp add: load_processed_user_ids_def load_processed_user_ids_try_def)

lemma queue_of_empty_set: "ids_to_process_queue all_ids {} = all_ids"
  by (simp add: ids_to_process_queue_def)

text \<open>
  Claim C10. \<open>load_processed_user_ids\<close> returns a set whatever reading the output file
  does: no exception leaves it. When the file is absent, is not JSON, or reading it fails
  in any other way, the set is empty, and then the queue of ids to process is the whole
  input list.
\<close>

theorem load_processed_user_ids_total:
  "(\<exists>processed. load_processed_user_ids py_repr file = Inr processed)
   \<and> (\<forall>e. file = LoadRaises e \<longrightarrow>
         load_processed_user_ids py_repr file = Inr {}
         \<and> (\<forall>processed. load_processed_user_ids py_repr file = Inr processed
               \<longrightarrow> ids_to_process_queue all_ids processed = all_ids))"
  using load_returns [of py_repr "file"]
  by (auto simp: load_raises_empty queue_of_empty_set)

theorem load_processed_user_ids_total_witness:
  "load_processed_user_ids sample_repr (LoadRaises JSONDecodeError) = Inr {}
   \<and> load_processed_user_ids sample_repr (LoadRaises FileNotFoundError) = Inr {}
   \<and> ids_to_process_queue [''11'', ''12''] {} = [''11'', ''12'']"
  using load_processed_user_ids_total [of sample_repr "LoadRaises JSONDecodeError" "[''11'', ''12'']"]
    load_processed_user_ids_total [of sample_repr "LoadRaises FileNotFoundError" "[''11'', ''12'']"]
  by simp

section \<open>Resuming\<close>




lemma collect_batch_results_list:
  "collect_batch_results (JArr entries) f
     = JArr (entries @ (case f of Returned batch_results \<Rightarrow> batch_results | FutureRaises \<Rightarrow> []))"
  by (cases f) (simp_all add: collect_batch_results_def)





section \<open>The credentials check and the start of the sessions\<close>

lemma py_in_iff_sublist: "py_in needle hay \<longleftrightarrow> sublist needle hay"
  by (induction hay) (auto simp: sublist_Cons_right)

lemma credentials_unset_iff:
  "credentials_unset current_username current_password \<longleftrightarrow>
     current_username = None \<or> current_username = Some []
     \<or> current_password = None \<or> current_password = Some []
     \<or> (\<exists>u p. current_username = Some u \<and> current_password = Some p
             \<and> (sublist ''YOUR_USERNAME'' u \<or> sublist ''YOUR_PASSWORD'' p))"
  by (cases current_username; cases current_password)
     (auto simp: credentials_unset_def py_in_iff_sublist)

lemma login_instances_raises:
  "\<exists>i \<in> set instances. logins i = LoginRaises
     \<Longrightarrow> login_instances logins instances active = Inl OtherException"
proof (induction instances arbitrary: active)
  case Nil
  then show ?case by simp
next
  case (Cons i rest)
  then show ?case by (cases "logins i") auto
qed

lemma login_instances_returns:
  "\<forall>i \<in> set instances. logins i \<noteq> LoginRaises
     \<Longrightarrow> login_instances logins instances active
           = Inr (active @ filter (\<lambda>i. logins i = LoggedIn) instances)"
proof (induction instances arbitrary: active)
  case Nil
  then show ?case by simp
next
  case (Cons i rest)
  then show ?case by (cases "logins i") auto
qed

text \<open>Where the start of the run leaves, by the credentials, the pending ids and what
  the browser instances do.\<close>

lemma main_startup_cases:
  assumes "load_processed_user_ids py_repr output_file = Inr processed"
  shows "main_startup py_repr current_username current_password all_ids output_file
           max_workers logins
         = (if credentials_unset current_username current_password then Exit 1 CredentialsCheck
            else if all_ids = [] then Exit 0 EmptyIdFile
            else if ids_to_process_queue all_ids processed = [] then Exit 0 AllProcessed
            else if \<exists>i < nat max_workers. logins i = LoginRaises then Uncaught OtherException
            else if \<forall>i < nat max_workers. logins i \<noteq> LoggedIn then Exit 1 NoInstance
            else Harvest (ids_to_process_queue all_ids processed)
                   (filter (\<lambda>i. logins i = LoggedIn) [0..<nat max_workers]))"
proof (cases "\<exists>i < nat max_workers. logins i = LoginRaises")
  case True
  then have "\<exists>i \<in> set [0..<nat max_workers]. logins i = LoginRaises" by auto
  from login_instances_raises [OF this, of "[]"] True assms show ?thesis
    by (simp add: main_startup_def Let_def)
next
  case False
  then have "\<forall>i \<in> set [0..<nat max_workers]. logins i \<noteq> LoginRaises" by auto
  from login_instances_returns [OF this, of "[]"]
  have run: "login_instances logins [0..<nat max_workers] []
               = Inr (filter (\<lambda>i. logins i = LoggedIn) [0..<nat max_workers])"
    by simp
  have none: "filter (\<lambda>i. logins i = LoggedIn) [0..<nat max_workers] = []
                \<longleftrightarrow> (\<forall>i < nat max_workers. logins i \<noteq> LoggedIn)"
    by (auto simp: filter_empty_conv)
  from False assms show ?thesis
    by (auto simp: main_startup_def Let_def run none)
qed

text \<open>
  Claim C9 says that the run aborts with a non-zero status before creating any session
  exactly when a credential is missing, empty or \<^emph>\<open>equal\<close> to a placeholder, and
  that it creates sessions otherwise. The script tests containment: a username that
  merely contains \<open>YOUR_USERNAME\<close> stops the run at the credentials check. With good
  credentials and an empty id list the run exits with status 0 and starts no instance.
  And with good credentials and a pending id, but no instance to start
  (\<open>--max-workers 0\<close>), the run exits with status 1 without any session.
\<close>

theorem credentials_claim_counterexample:
  "main_startup sample_repr (Some ''not_YOUR_USERNAME'') (Some ''secret'') [''11'']
       (LoadRaises FileNotFoundError) 4 (every_login LoggedIn) = Exit 1 CredentialsCheck
   \<and> ''not_YOUR_USERNAME'' \<noteq> [] \<and> ''secret'' \<noteq> []
   \<and> ''not_YOUR_USERNAME'' \<notin> {''YOUR_USERNAME'', ''YOUR_PASSWORD''}
   \<and> ''secret'' \<notin> {''YOUR_USERNAME'', ''YOUR_PASSWORD''}
   \<and> main_startup sample_repr (Some ''alice'') (Some ''secret'') []
       (LoadRaises FileNotFoundError) 4 (every_login LoggedIn) = Exit 0 EmptyIdFile
   \<and> main_startup sample_repr (Some ''alice'') (Some ''secret'') [''11'']
       (LoadRaises FileNotFoundError) 0 (every_login LoggedIn) = Exit 1 NoInstance"
  by (simp add: main_startup_def credentials_unset_def load_raises_empty
      ids_to_process_queue_def)

text \<open>
  Claim C9, amended. After the arguments are parsed, the run stops at the credentials
  check, with exit status 1 and before the id list is read or any browser instance is
  started, if and only if the username is missing or empty, the password is missing or
  empty, the username contains \<open>YOUR_USERNAME\<close>, or the password contains
  \<open>YOUR_PASSWORD\<close>. When the credentials pass the check: with an empty id list, or
  with no id pending, the run exits with status 0 and starts no instance; otherwise it
  starts \<open>max_workers\<close> instances one after the other, and then it is ended by the
  exception when starting one of them raises, it exits with status 1 without a session
  when none of them logged in (so always when \<open>max_workers\<close> is not positive), and it
  goes on to harvest the pending ids with the instances that logged in, of which there is
  at least one, in every other case. So the run leaves through \<open>sys.exit(1)\<close>
  exactly when the credentials fail the check, or ids are pending and every instance
  fails to log in without raising.
\<close>

theorem credentials_check:
  "\<exists>processed.
     load_processed_user_ids py_repr output_file = Inr processed
     \<and> (main_startup py_repr current_username current_password all_ids output_file
            max_workers logins = Exit 1 CredentialsCheck
          \<longleftrightarrow> current_username = None \<or> current_username = Some []
              \<or> current_password = None \<or> current_password = Some []
              \<or> (\<exists>u p. current_username = Some u \<and> current_password = Some p
                      \<and> (sublist ''YOUR_USERNAME'' u \<or> sublist ''YOUR_PASSWORD'' p)))
     \<and> (\<not> credentials_unset current_username current_password \<longrightarrow>
           (all_ids = [] \<longrightarrow>
              main_startup py_repr current_username current_password all_ids output_file
                max_workers logins = Exit 0 EmptyIdFile)
         \<and> (all_ids \<noteq> [] \<and> ids_to_process_queue all_ids processed = [] \<longrightarrow>
              main_startup py_repr current_username current_password all_ids output_file
                max_workers logins = Exit 0 AllProcessed)
         \<and> (ids_to_process_queue all_ids processed \<noteq> [] \<longrightarrow>
              ((\<exists>i < nat max_workers. logins i = LoginRaises) \<longrightarrow>
                 main_startup py_repr current_username current_password all_ids output_file
                   max_workers logins = Uncaught OtherException)
            \<and> ((\<forall>i < nat max_workers. logins i = NotLoggedIn) \<longrightarrow>
                 main_startup py_repr current_username current_password all_ids output_file
                   max_workers logins = Exit 1 NoInstance)
            \<and> ((\<forall>i < nat max_workers. logins i \<noteq> LoginRaises)
                 \<and> (\<exists>i < nat max_workers. logins i = LoggedIn) \<longrightarrow>
                 main_startup py_repr current_username current_password all_ids output_file
                   max_workers logins
                   = Harvest (ids_to_process_queue all_ids processed)
                       (filter (\<lambda>i. logins i = LoggedIn) [0..<nat max_workers])
                 \<and> filter (\<lambda>i. logins i = LoggedIn) [0..<nat max_workers] \<noteq> [])))
     \<and> ((\<exists>place. main_startup py_repr current_username current_password all_ids output_file
                     max_workers logins = Exit 1 place)
          \<longleftrightarrow> credentials_unset current_username current_password
              \<or> (ids_to_process_queue all_ids processed \<noteq> []
                  \<and> (\<forall>i < nat max_workers. logins i = NotLoggedIn)))"
proof -
  obtain processed where loaded: "load_processed_user_ids py_repr output_file = Inr processed"
    using load_returns by blast
  note run = main_startup_cases [OF loaded, of current_username current_password all_ids
      max_workers logins]
  have queue: "all_ids = [] \<Longrightarrow> ids_to_process_queue all_ids processed = []"
    by (simp add: ids_to_process_queue_def)
  have each: "\<And>i. logins i = NotLoggedIn \<longleftrightarrow> logins i \<noteq> LoginRaises \<and> logins i \<noteq> LoggedIn"
    by (metis login_result.distinct(1,3,5) login_result.exhaust)
  have check: "main_startup py_repr current_username current_password all_ids output_file
            max_workers logins = Exit 1 CredentialsCheck
          \<longleftrightarrow> current_username = None \<or> current_username = Some []
              \<or> current_password = None \<or> current_password = Some []
              \<or> (\<exists>u p. current_username = Some u \<and> current_password = Some p
                      \<and> (sublist ''YOUR_USERNAME'' u \<or> sublist ''YOUR_PASSWORD'' p))"
    unfolding credentials_unset_iff [symmetric] run by simp
  have after: "\<not> credentials_unset current_username current_password \<longrightarrow>
           (all_ids = [] \<longrightarrow>
              main_startup py_repr current_username current_password all_ids output_file
                max_workers logins = Exit 0 EmptyIdFile)
         \<and> (all_ids \<noteq> [] \<and> ids_to_process_queue all_ids processed = [] \<longrightarrow>
              main_startup py_repr current_username current_password all_ids output_file
                max_workers logins = Exit 0 AllProcessed)
         \<and> (ids_to_process_queue all_ids processed \<noteq> [] \<longrightarrow>
              ((\<exists>i < nat max_workers. logins i = LoginRaises) \<longrightarrow>
                 main_startup py_repr current_username current_password all_ids output_file
                   max_workers logins = Uncaught OtherException)
            \<and> ((\<forall>i < nat max_workers. logins i = NotLoggedIn) \<longrightarrow>
                 main_startup py_repr current_username current_password all_ids output_file
                   max_workers logins = Exit 1 NoInstance)
            \<and> ((\<forall>i < nat max_workers. logins i \<noteq> LoginRaises)
                 \<and> (\<exists>i < nat max_workers. logins i = LoggedIn) \<longrightarrow>
                 main_startup py_repr current_username current_password all_ids output_file
                   max_workers logins
                   = Harvest (ids_to_process_queue all_ids processed)
                       (filter (\<lambda>i. logins i = LoggedIn) [0..<nat max_workers])
                 \<and> filter (\<lambda>i. logins i = LoggedIn) [0..<nat max_workers] \<noteq> []))"
    unfolding run using queue by (auto simp: each filter_empty_conv)
  have status: "(\<exists>place. main_startup py_repr current_username current_password all_ids
                     output_file max_workers logins = Exit 1 place)
          \<longleftrightarrow> credentials_unset current_username current_password
              \<or> (ids_to_process_queue all_ids processed \<noteq> []
                  \<and> (\<forall>i < nat max_workers. logins i = NotLoggedIn))"
    unfolding run using queue by (auto simp: each)
  from loaded check after status show ?thesis by blast
qed

theorem credentials_check_witness:
  "\<not> credentials_unset (Some ''alice'') (Some ''secret'')
   \<and> main_startup sample_repr (Some ''alice'') (Some ''secret'') [''11'', ''12'']
       (Loaded (JArr [sample_entry ''11'' []])) 2 (every_login LoggedIn)
     = Harvest [''12''] [0, 1]
   \<and> main_startup sample_repr (Some ''alice'') (Some ''secret'') [''11'', ''12'']
       (Loaded (JArr [sample_entry ''11'' []])) 2 (every_login NotLoggedIn)
     = Exit 1 NoInstance
   \<and> main_startup sample_repr (Some ''alice'') None [''11'', ''12'']
       (Loaded (JArr [sample_entry ''11'' []])) 2 (every_login LoggedIn)
     = Exit 1 CredentialsCheck"
proof -
  let ?stored = "Loaded (JArr [sample_entry ''11'' []])"
  have good: "\<not> credentials_unset (Some ''alice'') (Some ''secret'')"
    by (simp add: credentials_unset_def)
  have loaded: "load_processed_user_ids sample_repr ?stored = Inr {''11''}"
    by (simp add: load_list List.map_filter_def entry_user_id_def sample_entry_def)
  have queue: "ids_to_process_queue [''11'', ''12''] {''11''} = [''12'']"
    by (simp add: ids_to_process_queue_def)
  have two: "[0..<nat 2] = [0, 1]"
    by (simp add: upt_rec)
  have some: "\<exists>i::nat. i < 2"
    by (rule exI [of _ 0]) simp
  from credentials_check [of sample_repr ?stored "Some ''alice''" "Some ''secret''"
      "[''11'', ''12'']" 2 "every_login LoggedIn"] good loaded queue two some
  have a: "main_startup sample_repr (Some ''alice'') (Some ''secret'') [''11'', ''12'']
       ?stored 2 (every_login LoggedIn) = Harvest [''12''] [0, 1]"
    by (simp add: every_login_def)
  from credentials_check [of sample_repr ?stored "Some ''alice''" "Some ''secret''"
      "[''11'', ''12'']" 2 "every_login NotLoggedIn"] good loaded queue
  have b: "main_startup sample_repr (Some ''alice'') (Some ''secret'') [''11'', ''12'']
       ?stored 2 (every_login NotLoggedIn) = Exit 1 NoInstance"
    by (simp add: every_login_def)
  from credentials_check [of sample_repr ?stored "Some ''alice''" None
      "[''11'', ''12'']" 2 "every_login LoggedIn"]
  have c: "main_startup sample_repr (Some ''alice'') None [''11'', ''12'']
       ?stored 2 (every_login LoggedIn) = Exit 1 CredentialsCheck"
    by auto
  from good a b c show ?thesis by blast
qed

section \<open>Merging batch results\<close>

lemma map_snd_enumerate: "map (\<lambda>x. g (snd x)) (enumerate n xs) = map g xs"
  by (induction xs arbitrary: n) simp_all

text \<open>A worker returns one entry per id of its batch, in order, keyed by that id.\<close>

lemma worker_keys:
  "entry_keys (process_id_batch_worker obs batch m) = map (\<lambda>uid. Some (JStr uid)) batch"
proof -
  have "entry_keys (process_id_batch_worker obs batch m)
          = map (\<lambda>x. Some (JStr (snd x))) (enumerate 0 batch)"
    by (simp add: entry_keys_def process_id_batch_worker_def entry_user_id_def o_def split_def)
  also have "\<dots> = map (\<lambda>uid. Some (JStr uid)) batch"
    by (rule map_snd_enumerate [of "\<lambda>uid. Some (JStr uid)"])
  finally show ?thesis .
qed

text \<open>
  Claim C2 says that merging replaces an entry whose id is already in the snapshot and
  keeps the ids unique. The script appends: here the snapshot has an entry for id 7, the
  batch brings another, and afterwards the list holds both, the old one first.
\<close>

theorem merge_claim_counterexample:
  "collect_batch_results (JArr [sample_entry ''7'' []]) (Returned [sample_entry ''7'' [JStr ''a'']])
     = JArr [sample_entry ''7'' [], sample_entry ''7'' [JStr ''a'']]
   \<and> entry_keys [sample_entry ''7'' [], sample_entry ''7'' [JStr ''a'']]
     = [Some (JStr ''7''), Some (JStr ''7'')]
   \<and> \<not> distinct (entry_keys [sample_entry ''7'' [], sample_entry ''7'' [JStr ''a'']])"
  by (simp add: collect_batch_results_def entry_keys_def entry_user_id_def sample_entry_def)

text \<open>
  Claim C2, amended. Merging the results of a batch into the result list appends them
  behind the entries already there, in the order the worker returned them; no entry is
  replaced or removed, and a save that goes through writes the whole list. The ids of the
  merged list are unique when those of the list and of the batch are unique and no id of
  the batch is in the list already. A worker returns exactly one entry per id of its
  batch.
\<close>

theorem merge_appends:
  "collect_batch_results (JArr entries) (Returned batch_results) = JArr (entries @ batch_results)
   \<and> (distinct (entry_keys entries) \<and> distinct (entry_keys batch_results)
       \<and> set (entry_keys entries) \<inter> set (entry_keys batch_results) = {}
      \<longrightarrow> distinct (entry_keys (entries @ batch_results)))
   \<and> entry_keys (process_id_batch_worker obs id_batch max_logs)
       = map (\<lambda>uid. Some (JStr uid)) id_batch
   \<and> (read_existing_ok existing
      \<longrightarrow> save_results_to_json (JArr (entries @ batch_results)) existing None disk
          = Some (json_dump (JArr (entries @ batch_results))))"
  by (simp add: collect_batch_results_list entry_keys_def worker_keys [unfolded entry_keys_def]
      save_results_to_json_def)

theorem merge_appends_witness:
  "distinct (entry_keys [sample_entry ''7'' []])
   \<and> distinct (entry_keys [sample_entry ''8'' [JStr ''a'']])
   \<and> set (entry_keys [sample_entry ''7'' []]) \<inter> set (entry_keys [sample_entry ''8'' [JStr ''a'']]) = {}
   \<and> read_existing_ok (LoadRaises FileNotFoundError)
   \<and> collect_batch_results (JArr [sample_entry ''7'' []]) (Returned [sample_entry ''8'' [JStr ''a'']])
       = JArr [sample_entry ''7'' [], sample_entry ''8'' [JStr ''a'']]
   \<and> distinct (entry_keys ([sample_entry ''7'' []] @ [sample_entry ''8'' [JStr ''a'']]))"
proof -
  have d1: "distinct (entry_keys [sample_entry ''7'' []])"
    and d2: "distinct (entry_keys [sample_entry ''8'' [JStr ''a'']])"
    and d3: "set (entry_keys [sample_entry ''7'' []])
               \<inter> set (entry_keys [sample_entry ''8'' [JStr ''a'']]) = {}"
    by (simp_all add: entry_keys_def entry_user_id_def sample_entry_def)
  have r: "read_existing_ok (LoadRaises FileNotFoundError)"
    by (simp add: read_existing_ok_def)
  from merge_appends [of "[sample_entry ''7'' []]" "[sample_entry ''8'' [JStr ''a'']]"
      "\<lambda>i. two_per_page Found True" "[]" 3 "LoadRaises FileNotFoundError" None] d1 d2 d3
  have "collect_batch_results (JArr [sample_entry ''7'' []]) (Returned [sample_entry ''8'' [JStr ''a'']])
          = JArr [sample_entry ''7'' [], sample_entry ''8'' [JStr ''a'']]
        \<and> distinct (entry_keys ([sample_entry ''7'' []] @ [sample_entry ''8'' [JStr ''a'']]))"
    by simp
  with d1 d2 d3 r show ?thesis by blast
qed

section \<open>Writing the output file\<close>

lemma json_dump_list_nonempty: "json_dump (JArr entries) \<noteq> []"
  by (simp add: json_dump_def)

text \<open>
  Claim C1 says that after an interrupted save the file holds the new content or the
  content of the last save that went through. The script opens the file for writing in
  place, which empties it. Here the file holds the entry for id 7, the save of the entries
  for 7 and 8 is stopped right after the file is opened, and an empty file is left: neither
  the old content nor the new.
\<close>

theorem atomic_persist_counterexample:
  "save_results_to_json (JArr [sample_entry ''7'' [], sample_entry ''8'' []])
       (Loaded (JArr [sample_entry ''7'' []])) (Some (Suc 0))
       (Some (json_dump (JArr [sample_entry ''7'' []])))
     = Some []
   \<and> Some [] \<noteq> Some (json_dump (JArr [sample_entry ''7'' [], sample_entry ''8'' []]))
   \<and> Some [] \<noteq> Some (json_dump (JArr [sample_entry ''7'' []]))
   \<and> Some [] \<noteq> (None :: string option)"
  by (simp add: save_results_to_json_def read_existing_ok_def json_dump_list_nonempty [symmetric])

text \<open>
  Claim C1, amended. A save rewrites the output file in place. When it runs to the end
  the file holds the newly serialised results. When it is stopped before the file is open
  for writing, or reading the old file raises something other than file-not-found or a
  JSON decode error, the file is left as it was. When it is stopped later, the file holds
  the first characters of the newly serialised results, as many as were written, possibly
  none. In every case the file is either untouched or a prefix of the new text.
\<close>

theorem save_in_place:
  "(read_existing_ok existing
      \<longrightarrow> save_results_to_json all_results existing None disk = Some (json_dump all_results))
   \<and> save_results_to_json all_results existing (Some 0) disk = disk
   \<and> (\<not> read_existing_ok existing
      \<longrightarrow> save_results_to_json all_results existing stop disk = disk)
   \<and> (read_existing_ok existing
      \<longrightarrow> save_results_to_json all_results existing (Some (Suc n)) disk
          = Some (take n (json_dump all_results)))
   \<and> (save_results_to_json all_results existing stop disk = disk
      \<or> (\<exists>written. save_results_to_json all_results existing stop disk = Some written
                    \<and> prefix written (json_dump all_results)))"
proof -
  have last: "save_results_to_json all_results existing stop disk = disk
      \<or> (\<exists>written. save_results_to_json all_results existing stop disk = Some written
                    \<and> prefix written (json_dump all_results))"
  proof (cases "read_existing_ok existing")
    case False
    then show ?thesis by (simp add: save_results_to_json_def)
  next
    case True
    show ?thesis
    proof (cases stop)
      case None
      with True show ?thesis by (simp add: save_results_to_json_def)
    next
      case (Some k)
      with True show ?thesis
        by (cases k) (simp_all add: save_results_to_json_def take_is_prefix)
    qed
  qed
  then show ?thesis by (simp add: save_results_to_json_def)
qed

theorem save_in_place_witness:
  "read_existing_ok (Loaded (JArr [sample_entry ''7'' []]))
   \<and> save_results_to_json (JArr []) (Loaded (JArr [sample_entry ''7'' []])) None (Some ''[]'')
       = Some ''[]''
   \<and> save_results_to_json (JArr []) (Loaded (JArr [sample_entry ''7'' []])) (Some (Suc 1))
       (Some ''old'') = Some ''[''"
proof -
  have r: "read_existing_ok (Loaded (JArr [sample_entry ''7'' []]))"
    by (simp add: read_existing_ok_def)
  have d: "json_dump (JArr []) = ''[]''" by (simp add: json_dump_def)
  from r d save_in_place [of "Loaded (JArr [sample_entry ''7'' []])" "JArr []" "Some ''[]''" None 1]
  have a: "save_results_to_json (JArr []) (Loaded (JArr [sample_entry ''7'' []])) None (Some ''[]'')
       = Some ''[]''"
    by simp
  from r d save_in_place [of "Loaded (JArr [sample_entry ''7'' []])" "JArr []" "Some ''old''" None 1]
  have b: "save_results_to_json (JArr []) (Loaded (JArr [sample_entry ''7'' []])) (Some (Suc 1))
       (Some ''old'') = Some ''[''"
    by simp
  from r a b show ?thesis by blast
qed

section \<open>The correlation analysis\<close>

lemma analyze_record_fields:
  "analyze_record (h, s, i) r = (field_step hwid h r, field_step socialClubId s r, field_step ip i r)"
  by (simp add: analyze_record_def field_step_def split: option.splits)

lemma foldl_analyze_record:
  "foldl analyze_record (h, s, i) data
     = (foldl (field_step hwid) h data, foldl (field_step socialClubId) s data,
        foldl (field_step ip) i data)"
  by (induction data arbitrary: h s i) (simp_all add: analyze_record_fields)

lemma count_use_keys:
  "map fst (count_use u ts d) = (if u \<in> fst ` set d then map fst d else map fst d @ [u])"
  by (induction d) (force+)

lemma count_use_set: "set (map fst (count_use u ts d)) = insert u (set (map fst d))"
  by (auto simp: count_use_keys)

lemma count_use_distinct: "distinct (map fst d) \<Longrightarrow> distinct (map fst (count_use u ts d))"
  by (auto simp: count_use_keys)

lemma map_of_record_use:
  "map_of (record_use v u ts m)
     = (map_of m)(v \<mapsto> count_use u ts (case map_of m v of None \<Rightarrow> [] | Some d \<Rightarrow> d))"
  by (induction m) (auto simp: fun_eq_iff)

lemma record_use_keys:
  "map fst (record_use v u ts m) = (if v \<in> fst ` set m then map fst m else map fst m @ [v])"
  by (induction m) (force+)

lemma record_use_distinct: "distinct (map fst m) \<Longrightarrow> distinct (map fst (record_use v u ts m))"
  by (auto simp: record_use_keys)

lemma users_of_snoc:
  "users_of f v (data @ [r])
     = users_of f v data
       \<union> (case userId r of None \<Rightarrow> {}
          | Some u \<Rightarrow> if timestamp r \<noteq> None \<and> f r = Some v then {u} else {})"
  by (auto simp: users_of_def split: option.splits if_splits)

lemma field_fold_invariant:
  "distinct (map fst (foldl (field_step f) [] data))
   \<and> (\<forall>v. map_of (foldl (field_step f) [] data) v = None \<longrightarrow> users_of f v data = {})
   \<and> (\<forall>v d. map_of (foldl (field_step f) [] data) v = Some d
          \<longrightarrow> distinct (map fst d) \<and> set (map fst d) = users_of f v data)"
proof (induction data rule: rev_induct)
  case Nil
  show ?case by (simp add: users_of_def)
next
  case (snoc r data)
  let ?M = "foldl (field_step f) [] data"
  from snoc have dist: "distinct (map fst ?M)"
    and none: "\<And>v. map_of ?M v = None \<Longrightarrow> users_of f v data = {}"
    and some: "\<And>v d. map_of ?M v = Some d
                 \<Longrightarrow> distinct (map fst d) \<and> set (map fst d) = users_of f v data"
    by blast+
  show ?case
  proof (cases "\<exists>u ts x. userId r = Some u \<and> timestamp r = Some ts \<and> f r = Some x")
    case False
    then have same: "foldl (field_step f) [] (data @ [r]) = ?M"
      by (auto simp: field_step_def note_identifier_def split: option.splits)
    from False have users: "\<And>v. users_of f v (data @ [r]) = users_of f v data"
      by (auto simp: users_of_snoc split: option.splits)
    from snoc show ?thesis unfolding same users .
  next
    case True
    then obtain u ts x where r: "userId r = Some u" "timestamp r = Some ts" "f r = Some x"
      by blast
    then have step: "foldl (field_step f) [] (data @ [r]) = record_use x u ts ?M"
      by (simp add: field_step_def note_identifier_def)
    have users: "\<And>v. users_of f v (data @ [r])
                    = (if v = x then insert u (users_of f v data) else users_of f v data)"
      using r by (auto simp: users_of_snoc)
    have d': "distinct (map fst (record_use x u ts ?M))"
      using dist by (rule record_use_distinct)
    have none': "\<forall>v. map_of (record_use x u ts ?M) v = None \<longrightarrow> users_of f v (data @ [r]) = {}"
      using none by (auto simp: map_of_record_use users split: if_splits)
    have some': "\<forall>v d. map_of (record_use x u ts ?M) v = Some d
          \<longrightarrow> distinct (map fst d) \<and> set (map fst d) = users_of f v (data @ [r])"
    proof (intro allI impI)
      fix v d
      assume look: "map_of (record_use x u ts ?M) v = Some d"
      show "distinct (map fst d) \<and> set (map fst d) = users_of f v (data @ [r])"
      proof (cases "v = x")
        case False
        with look have "map_of ?M v = Some d" by (simp add: map_of_record_use)
        from some [OF this] False show ?thesis by (simp add: users)
      next
        case True
        show ?thesis
        proof (cases "map_of ?M x")
          case None
          with look True have "d = count_use u ts []" by (simp add: map_of_record_use)
          with none [OF None] True show ?thesis by (simp add: users)
        next
          case (Some d0)
          with look True have d: "d = count_use u ts d0" by (simp add: map_of_record_use)
          from some [OF Some] have "distinct (map fst d0)" "set (map fst d0) = users_of f x data"
            by blast+
          with d True show ?thesis
            using count_use_set [of u ts d0] count_use_distinct [of d0 u ts]
            by (simp add: users del: set_map)
        qed
      qed
    qed
    from d' none' some' show ?thesis unfolding step by blast
  qed
qed

lemma shared_only_keys:
  assumes "distinct (map fst m)"
  shows "v \<in> fst ` set (shared_only m) \<longleftrightarrow> (\<exists>d. map_of m v = Some d \<and> 1 < length d)"
  using assms by (auto simp: shared_only_def image_iff) 

lemma shared_field:
  "v \<in> fst ` set (shared_only (foldl (field_step f) [] data)) \<longleftrightarrow> 2 \<le> card (users_of f v data)"
proof -
  let ?M = "foldl (field_step f) [] data"
  from field_fold_invariant [of f data]
  have dist: "distinct (map fst ?M)"
    and none: "map_of ?M v = None \<Longrightarrow> users_of f v data = {}"
    and some: "\<And>d. map_of ?M v = Some d
                 \<Longrightarrow> distinct (map fst d) \<and> set (map fst d) = users_of f v data"
    by blast+
  show ?thesis
  proof (cases "map_of ?M v")
    case None
    with none dist show ?thesis by (simp add: shared_only_keys)
  next
    case (Some d)
    with some have "distinct (map fst d)" "set (map fst d) = users_of f v data" by blast+
    then have "card (users_of f v data) = length d"
      using distinct_card [of "map fst d"] by simp
    with Some dist show ?thesis by (auto simp: shared_only_keys)
  qed
qed

lemma analyze_data_eq:
  "analyze_data data
     = (shared_only (foldl (field_step hwid) [] data),
        shared_only (foldl (field_step socialClubId) [] data),
        shared_only (foldl (field_step ip) [] data))"
  by (cases "data = []") (simp_all add: analyze_data_def foldl_analyze_record shared_only_def)

lemma field_step_skip:
  "\<not> (userId r \<noteq> None \<and> timestamp r \<noteq> None) \<Longrightarrow> field_step f m r = m"
  by (auto simp: field_step_def split: option.splits)

lemma foldl_field_step_filter:
  "foldl (field_step f) m [r \<leftarrow> data. userId r \<noteq> None \<and> timestamp r \<noteq> None]
     = foldl (field_step f) m data"
  by (induction data arbitrary: m) (simp_all add: field_step_skip)

lemma analyze_data_filter:
  "analyze_data [r \<leftarrow> data. userId r \<noteq> None \<and> timestamp r \<noteq> None] = analyze_data data"
  by (simp only: analyze_data_eq foldl_field_step_filter)

text \<open>
  Claim C5. For each of the three fields, an identifier value is among the shared ones
  that \<open>analyze_data\<close> returns if and only if at least two distinct user ids occur
  with it on records that carry a user id and a timestamp. Records that lack the user id
  or the timestamp change nothing: the whole result, counts and last-seen times included,
  is the same with them removed.
\<close>

theorem sharing_threshold:
  "(v \<in> fst ` set (shared_hwids data)
      \<longleftrightarrow> 2 \<le> card {u. \<exists>r \<in> set data. userId r = Some u \<and> timestamp r \<noteq> None \<and> hwid r = Some v})
   \<and> (v \<in> fst ` set (shared_social_clubs data)
      \<longleftrightarrow> 2 \<le> card {u. \<exists>r \<in> set data. userId r = Some u \<and> timestamp r \<noteq> None
                                          \<and> socialClubId r = Some v})
   \<and> (v \<in> fst ` set (shared_ips data)
      \<longleftrightarrow> 2 \<le> card {u. \<exists>r \<in> set data. userId r = Some u \<and> timestamp r \<noteq> None \<and> ip r = Some v})
   \<and> analyze_data [r \<leftarrow> data. userId r \<noteq> None \<and> timestamp r \<noteq> None] = analyze_data data"
proof (intro conjI)
  show "v \<in> fst ` set (shared_hwids data)
      \<longleftrightarrow> 2 \<le> card {u. \<exists>r \<in> set data. userId r = Some u \<and> timestamp r \<noteq> None \<and> hwid r = Some v}"
    using shared_field [of v hwid data]
    unfolding users_of_def by (simp only: shared_hwids_def analyze_data_eq fst_conv)
  show "v \<in> fst ` set (shared_social_clubs data)
      \<longleftrightarrow> 2 \<le> card {u. \<exists>r \<in> set data. userId r = Some u \<and> timestamp r \<noteq> None
                                          \<and> socialClubId r = Some v}"
    using shared_field [of v socialClubId data]
    unfolding users_of_def by (simp only: shared_social_clubs_def analyze_data_eq fst_conv snd_conv)
  show "v \<in> fst ` set (shared_ips data)
      \<longleftrightarrow> 2 \<le> card {u. \<exists>r \<in> set data. userId r = Some u \<and> timestamp r \<noteq> None \<and> ip r = Some v}"
    using shared_field [of v ip data]
    unfolding users_of_def by (simp only: shared_ips_def analyze_data_eq snd_conv)
  show "analyze_data [r \<leftarrow> data. userId r \<noteq> None \<and> timestamp r \<noteq> None] = analyze_data data"
    by (rule analyze_data_filter)
qed

lemma sample_analysis:
  "analyze_data sample_records = ([(''A'', [(1, 1, ''t1''), (2, 1, ''t2'')])], [], [])"
  by (simp add: analyze_data_def sample_records_def analyze_record_def note_identifier_def shared_only_def)

theorem sharing_threshold_witness:
  "shared_hwids sample_records = [(''A'', [(1, 1, ''t1''), (2, 1, ''t2'')])]
   \<and> 2 \<le> card {u. \<exists>r \<in> set sample_records. userId r = Some u \<and> timestamp r \<noteq> None \<and> hwid r = Some ''A''}
   \<and> \<not> 2 \<le> card {u. \<exists>r \<in> set sample_records. userId r = Some u \<and> timestamp r \<noteq> None \<and> hwid r = Some ''B''}"
proof -
  have s: "shared_hwids sample_records = [(''A'', [(1, 1, ''t1''), (2, 1, ''t2'')])]"
    by (simp add: shared_hwids_def sample_analysis)
  from sharing_threshold [of "''A''" sample_records] sharing_threshold [of "''B''" sample_records]
  show ?thesis by (simp add: s)
qed

section \<open>The report\<close>

lemma sorted_users_set: "set (sorted_users d) = set d"
  by (simp add: sorted_users_def)

lemma sorted_users_primary_max:
  assumes "sorted_users d = primary # others"
  shows "\<forall>item \<in> set d. sort_key_of item \<le> sort_key_of primary"
proof -
  let ?S = "sort_key sort_key_of (rev d)"
  from assms have S: "?S = rev others @ [primary]"
    by (simp add: sorted_users_def rev_swap)
  have "sorted (map sort_key_of ?S)" by (rule sorted_sort_key)
  then have "\<forall>item \<in> set (rev others). sort_key_of item \<le> sort_key_of primary"
    unfolding S by (auto simp: sorted_append)
  moreover have "set d = set (rev others) \<union> {primary}"
    using sorted_users_set [of d] assms by auto
  ultimately show ?thesis by auto
qed

lemma sort_key_of_le:
  "sort_key_of item \<le> sort_key_of primary \<longleftrightarrow>
     fst (snd item) < fst (snd primary)
     \<or> (fst (snd item) = fst (snd primary) \<and> snd (snd item) \<le> snd (snd primary))"
  by (auto simp: sort_key_of_def less_eq_prod_def)

text \<open>
  Claim C6. For a group with at least one user, the user reported as likely primary is
  an item of the group that no other item beats: every item has a smaller count, or the
  same count and a last-seen time that is not later, strings compared lexicographically.
  All other users of the group are reported as secondary. For the group of users 1 and 2
  with count 3 each, last seen on 2024-01-02 and 2024-01-03, the primary user is 2.
\<close>

theorem primary_ranking:
  "(d \<noteq> [] \<and> distinct (map fst d) \<longrightarrow>
      (\<exists>primary others.
         report_group d = Some (primary, others)
         \<and> primary \<in> set d
         \<and> (\<forall>item \<in> set d.
               fst (snd item) < fst (snd primary)
               \<or> (fst (snd item) = fst (snd primary) \<and> snd (snd item) \<le> snd (snd primary)))
         \<and> set others = set d - {primary}))
   \<and> report_group [(1::nat, 3, ''2024-01-02''), (2, 3, ''2024-01-03'')]
       = Some ((2, 3, ''2024-01-03''), [(1, 3, ''2024-01-02'')])"
proof (intro conjI impI)
  assume a: "d \<noteq> [] \<and> distinct (map fst d)"
  then have "sorted_users d \<noteq> []"
    using sorted_users_set [of d] by auto
  then obtain primary rest where su: "sorted_users d = primary # rest"
    by (cases "sorted_users d") auto
  let ?others = "filter (\<lambda>item. fst item \<noteq> fst primary) (sorted_users d)"
  from a su have rg: "report_group d = Some (primary, ?others)"
    by (simp add: report_group_def)
  from su have mem: "primary \<in> set d"
    using sorted_users_set [of d] by auto
  from sorted_users_primary_max [OF su]
  have mx: "\<forall>item \<in> set d.
               fst (snd item) < fst (snd primary)
               \<or> (fst (snd item) = fst (snd primary) \<and> snd (snd item) \<le> snd (snd primary))"
    by (simp only: sort_key_of_le)
  from a mem have uniq: "\<forall>item \<in> set d. fst item = fst primary \<longrightarrow> item = primary"
    by (auto simp: eq_key_imp_eq_value distinct_map inj_on_def)
  then have oth: "set ?others = set d - {primary}"
    by (auto simp: sorted_users_set)
  from rg mem mx oth show "\<exists>primary others.
         report_group d = Some (primary, others)
         \<and> primary \<in> set d
         \<and> (\<forall>item \<in> set d.
               fst (snd item) < fst (snd primary)
               \<or> (fst (snd item) = fst (snd primary) \<and> snd (snd item) \<le> snd (snd primary)))
         \<and> set others = set d - {primary}"
    by blast
next
  show "report_group [(1::nat, 3, ''2024-01-02''), (2, 3, ''2024-01-03'')]
       = Some ((2, 3, ''2024-01-03''), [(1, 3, ''2024-01-02'')])"
    by (simp add: report_group_def sorted_users_def sort_key_of_def)
qed

theorem primary_ranking_witness:
  "[(1::nat, 3::nat, ''2024-01-02''), (2, 3, ''2024-01-03'')] \<noteq> []
   \<and> distinct (map fst [(1::nat, 3::nat, ''2024-01-02''), (2, 3, ''2024-01-03'')])
   \<and> (\<exists>primary others.
         report_group [(1::nat, 3, ''2024-01-02''), (2, 3, ''2024-01-03'')] = Some (primary, others)
         \<and> primary \<in> set [(1::nat, 3, ''2024-01-02''), (2, 3, ''2024-01-03'')]
         \<and> fst primary = 2)"
proof -
  have n: "[(1::nat, 3::nat, ''2024-01-02''), (2, 3, ''2024-01-03'')] \<noteq> []" by simp
  have d: "distinct (map fst [(1::nat, 3::nat, ''2024-01-02''), (2, 3, ''2024-01-03'')])" by simp
  from primary_ranking [of "[(1::nat, 3, ''2024-01-02''), (2, 3, ''2024-01-03'')]"] n d
  have "\<exists>primary others.
         report_group [(1::nat, 3, ''2024-01-02''), (2, 3, ''2024-01-03'')] = Some (primary, others)
         \<and> primary \<in> set [(1::nat, 3, ''2024-01-02''), (2, 3, ''2024-01-03'')]
         \<and> fst primary = 2"
    by auto
  with n d show ?thesis by blast
qed


end
